theory Spec2Isabelle
  imports Complex_Main "HOL-Library.Char_ord" "HOL-Library.List_Lexorder"
begin

section \<open>Python and pandas primitives used by the dashboard code\<close>

text \<open>The exceptions the modelled code paths can raise.\<close>

datatype py_error = ValueError | IndexError | KeyError

subsection \<open>\<open>range\<close> and \<open>str\<close>\<close>

text \<open>
  Number of elements of \<open>range(start, stop, step)\<close> for a non-zero step, computed as
  CPython does: \<open>(hi - lo - 1) // |step| + 1\<close> when the range is not empty.
\<close>

definition range_len :: "int \<Rightarrow> int \<Rightarrow> int \<Rightarrow> nat" where
  "range_len start stop step =
     (if 0 < step
      then (if start < stop then nat ((stop - start - 1) div step + 1) else 0)
      else (if stop < start then nat ((start - stop - 1) div (- step) + 1) else 0))"

text \<open>\<open>range(start, stop, step)\<close>; a zero step raises \<open>ValueError\<close>.\<close>

definition py_range :: "int \<Rightarrow> int \<Rightarrow> int \<Rightarrow> py_error + int list" where
  "py_range start stop step =
     (if step = 0 then Inl ValueError
      else Inr (map (\<lambda>k. start + int k * step) [0..<range_len start stop step]))"

text \<open>\<open>xs[-1]\<close>: the last element, \<open>IndexError\<close> on an empty sequence.\<close>

definition py_last :: "'a list \<Rightarrow> py_error + 'a" where
  "py_last xs = (if xs = [] then Inl IndexError else Inr (last xs))"

definition digit_char :: "nat \<Rightarrow> char" where
  "digit_char d = char_of (48 + d)"

text \<open>Decimal digits of a natural number, most significant first.\<close>

function str_nat :: "nat \<Rightarrow> string" where
  "str_nat n = (if n < 10 then [digit_char n] else str_nat (n div 10) @ [digit_char (n mod 10)])"
  by pat_completeness auto
termination
  by (relation "measure id") auto

declare str_nat.simps [simp del]

text \<open>\<open>str(x)\<close> for a Python integer, as an f-string renders \<open>{x}\<close>.\<close>

definition str_int :: "int \<Rightarrow> string" where
  "str_int x = (if x < 0 then CHR ''-'' # str_nat (nat (- x)) else str_nat (nat x))"

text \<open>
  The fractional digits of \<open>r / 1000\<close> for \<open>r < 1000\<close>: trailing zeros are dropped and
  one digit is always kept (\<open>0\<close> gives \<open>0\<close>, \<open>500\<close> gives \<open>5\<close>, \<open>50\<close> gives \<open>05\<close>).
\<close>

definition frac_digits :: "nat \<Rightarrow> string" where
  "frac_digits r =
     (if r mod 100 = 0 then [digit_char (r div 100)]
      else if r mod 10 = 0 then [digit_char (r div 100), digit_char (r div 10 mod 10)]
      else [digit_char (r div 100), digit_char (r div 10 mod 10), digit_char (r mod 10)])"

text \<open>
  How an f-string renders \<open>{x/1000}\<close> for an integer \<open>x\<close> with \<open>0 \<le> x\<close>: \<open>x/1000\<close> is the
  double nearest to the ratio and its \<open>str\<close> is the shortest decimal that reads back as the
  same double. For \<open>x < 10^15\<close> that is the exact decimal expansion of the ratio with at
  least one fractional digit; larger magnitudes are outside this model.
\<close>

definition str_div1000 :: "int \<Rightarrow> string" where
  "str_div1000 x = str_int (x div 1000) @ ''.'' @ frac_digits (nat (x mod 1000))"

section \<open>Price bands (\<open>UKHousingDB.volume_by_price\<close>)\<close>

text \<open>The local \<open>bound\<close> of \<open>volume_by_price\<close>: the label of a bound given in thousands.\<close>

definition bound :: "int \<Rightarrow> string" where
  "bound x = (if x < 1000 then str_int x @ ''K'' else str_div1000 x @ ''M'')"

text \<open>
  One generated line \<open>WHEN price_gbp <= le_bound THEN 'band_label'\<close> of the SQL \<open>CASE\<close>.
\<close>

record when_clause =
  le_bound :: int
  band_label :: string

text \<open>The generated \<open>CASE\<close> body: the \<open>WHEN\<close> lines in order and the label of \<open>ELSE\<close>.\<close>

record price_bands =
  clauses :: "when_clause list"
  else_label :: string

definition when_line :: "int \<Rightarrow> int \<Rightarrow> when_clause" where
  "when_line interval j =
     \<lparr>le_bound = (j + interval) * 1000,
      band_label = bound j @ ''-'' @ bound (j + interval)\<rparr>"

text \<open>
  Lines 319 to 322 of \<open>database.py\<close>: the range of lower bounds, one \<open>WHEN\<close> line for each,
  and the \<open>ELSE\<close> line labelled from the last lower bound plus the interval. There is no
  check of the arguments; the errors are those of \<open>range\<close> and of \<open>price_range[-1]\<close>.
\<close>

definition volume_by_price_bands :: "int \<Rightarrow> int \<Rightarrow> py_error + price_bands" where
  "volume_by_price_bands interval price_limit =
     (case py_range 0 price_limit interval of
        Inl e \<Rightarrow> Inl e
      | Inr price_range \<Rightarrow>
          (case py_last price_range of
             Inl e \<Rightarrow> Inl e
           | Inr j \<Rightarrow>
               Inr \<lparr>clauses = map (when_line interval) price_range,
                    else_label = ''Over '' @ bound (j + interval)\<rparr>))"

text \<open>
  SQL evaluates a searched \<open>CASE\<close> top down: the index of the first line whose condition
  \<open>price_gbp <= le_bound\<close> holds, \<open>None\<close> when the \<open>ELSE\<close> branch is taken.
\<close>

fun first_match :: "when_clause list \<Rightarrow> int \<Rightarrow> nat option" where
  "first_match [] p = None"
| "first_match (w # ws) p =
     (if p \<le> le_bound w then Some 0
      else (case first_match ws p of None \<Rightarrow> None | Some i \<Rightarrow> Some (Suc i)))"

definition case_label :: "price_bands \<Rightarrow> int \<Rightarrow> string" where
  "case_label bs p =
     (case first_match (clauses bs) p of
        None \<Rightarrow> else_label bs
      | Some i \<Rightarrow> band_label (clauses bs ! i))"

text \<open>The labels in the order of the generated lines, the \<open>ELSE\<close> label last.\<close>

definition band_labels :: "int \<Rightarrow> int \<Rightarrow> py_error + string list" where
  "band_labels interval price_limit =
     (case volume_by_price_bands interval price_limit of
        Inl e \<Rightarrow> Inl e
      | Inr bs \<Rightarrow> Inr (map band_label (clauses bs) @ [else_label bs]))"

text \<open>The line a price is classified by, and the label it gets.\<close>

definition band_index :: "int \<Rightarrow> int \<Rightarrow> int \<Rightarrow> py_error + nat option" where
  "band_index interval price_limit p =
     (case volume_by_price_bands interval price_limit of
        Inl e \<Rightarrow> Inl e
      | Inr bs \<Rightarrow> Inr (first_match (clauses bs) p))"

definition band_of_price :: "int \<Rightarrow> int \<Rightarrow> int \<Rightarrow> py_error + string" where
  "band_of_price interval price_limit p =
     (case volume_by_price_bands interval price_limit of
        Inl e \<Rightarrow> Inl e
      | Inr bs \<Rightarrow> Inr (case_label bs p))"

section \<open>pandas values, series and frames\<close>

text \<open>
  A cell of a float column. \<open>NaN\<close> is also how pandas marks a missing cell; \<open>Infty True\<close> is
  \<open>+inf\<close> and \<open>Infty False\<close> is \<open>-inf\<close>. Finite values are real numbers: the rounding of
  binary64 arithmetic, overflow and the sign of zero are not part of this model.
\<close>

datatype fval = Num real | Infty bool | NaN

fun fmul :: "fval \<Rightarrow> fval \<Rightarrow> fval" where
  "fmul (Num a) (Num b) = Num (a * b)"
| "fmul (Num a) (Infty s) = (if a = 0 then NaN else Infty (s = (0 < a)))"
| "fmul (Infty s) (Num b) = (if b = 0 then NaN else Infty (s = (0 < b)))"
| "fmul (Infty s) (Infty t) = Infty (s = t)"
| "fmul NaN _ = NaN"
| "fmul _ NaN = NaN"

fun fdiv :: "fval \<Rightarrow> fval \<Rightarrow> fval" where
  "fdiv (Num a) (Num b) =
     (if b = 0 then (if a = 0 then NaN else Infty (0 < a)) else Num (a / b))"
| "fdiv (Num a) (Infty s) = Num 0"
| "fdiv (Infty s) (Num b) = Infty (s = (0 \<le> b))"
| "fdiv (Infty s) (Infty t) = NaN"
| "fdiv NaN _ = NaN"
| "fdiv _ NaN = NaN"

fun fsub :: "fval \<Rightarrow> fval \<Rightarrow> fval" where
  "fsub (Num a) (Num b) = Num (a - b)"
| "fsub (Num a) (Infty s) = Infty (\<not> s)"
| "fsub (Infty s) (Num b) = Infty s"
| "fsub (Infty s) (Infty t) = (if s = t then NaN else Infty s)"
| "fsub NaN _ = NaN"
| "fsub _ NaN = NaN"

text \<open>
  \<open>numpy.round(x, 1)\<close>, which \<open>Series.round(1)\<close> applies: scale by ten, round to the
  nearest integer with ties to the even one, scale back.
\<close>

definition rint :: "real \<Rightarrow> int" where
  "rint r =
     (let f = \<lfloor>r\<rfloor>; d = r - of_int f
      in if d < 1 / 2 then f else if 1 / 2 < d then f + 1 else if even f then f else f + 1)"

definition np_round1 :: "real \<Rightarrow> real" where
  "np_round1 x = of_int (rint (x * 10)) / 10"

fun fround1 :: "fval \<Rightarrow> fval" where
  "fround1 (Num a) = Num (np_round1 a)"
| "fround1 (Infty s) = Infty s"
| "fround1 NaN = NaN"

text \<open>
  A \<open>Series\<close> indexed by year: the labels with their values, in index order. The index is
  taken to be free of duplicates and increasing, as \<open>resample\<close> and \<open>groupby\<close> produce it.
\<close>

type_synonym series = "(int \<times> fval) list"

text \<open>The value at a label after reindexing: a label that is absent gives \<open>NaN\<close>.\<close>

definition series_get :: "series \<Rightarrow> int \<Rightarrow> fval" where
  "series_get s y = (case map_of s y of None \<Rightarrow> NaN | Some v \<Rightarrow> v)"

text \<open>
  A \<open>DataFrame\<close>: the column labels, and the rows as index label with the cells of the
  row in column order.
\<close>

record ('i, 'c) frame =
  columns :: "'c list"
  rows :: "('i \<times> fval list) list"

definition frame_index :: "('i, 'c) frame \<Rightarrow> 'i list" where
  "frame_index m = map fst (rows m)"

text \<open>The row at a label after reindexing: an absent label gives a row of \<open>NaN\<close>.\<close>

definition frame_row :: "('i, 'c) frame \<Rightarrow> 'i \<Rightarrow> fval list" where
  "frame_row m y =
     (case map_of (rows m) y of
        None \<Rightarrow> replicate (length (columns m)) NaN
      | Some vs \<Rightarrow> vs)"

text \<open>The cells of one column in row order (the cell of a row under column label \<open>c\<close>).\<close>

definition row_cell :: "'c list \<Rightarrow> fval list \<Rightarrow> 'c \<Rightarrow> fval" where
  "row_cell cols vs c = (case map_of (zip cols vs) c of None \<Rightarrow> NaN | Some v \<Rightarrow> v)"

text \<open>\<open>df[c]\<close>: the column labelled \<open>c\<close>, \<open>KeyError\<close> when there is no such column.\<close>

definition frame_column :: "('i, 'c) frame \<Rightarrow> 'c \<Rightarrow> py_error + fval list" where
  "frame_column m c =
     (if c \<in> set (columns m)
      then Inr (map (\<lambda>r. row_cell (columns m) (snd r) c) (rows m))
      else Inl KeyError)"

text \<open>
  \<open>DataFrame.pivot(index, columns, values)\<close> on rows given as (index, column, value):
  a repeated (index, column) pair raises \<open>ValueError\<close>; otherwise the result has the
  distinct index labels and the distinct column labels, both sorted ascending, and \<open>NaN\<close>
  in every cell no row provides.
\<close>

definition pivot_cell :: "('i \<times> 'c \<times> real) list \<Rightarrow> 'i \<Rightarrow> 'c \<Rightarrow> fval" where
  "pivot_cell df i c =
     (case map_of (map (\<lambda>(i', c', v). ((i', c'), v)) df) (i, c) of
        None \<Rightarrow> NaN
      | Some v \<Rightarrow> Num v)"

definition pivot :: "('i::linorder \<times> 'c::linorder \<times> real) list \<Rightarrow> py_error + ('i, 'c) frame" where
  "pivot df =
     (if \<not> distinct (map (\<lambda>(i, c, v). (i, c)) df) then Inl ValueError
      else
        (let cols = sort (remdups (map (\<lambda>(i, c, v). c) df))
         in Inr \<lparr>columns = cols,
                 rows = map (\<lambda>i. (i, map (pivot_cell df i) cols))
                          (sort (remdups (map (\<lambda>(i, c, v). i) df)))\<rparr>))"

text \<open>
  \<open>df.mul(s, axis=0)\<close>: frame and series are aligned on the row index with an outer join
  (the index is kept when both are equal, and is the sorted union otherwise), then every
  cell of a row is multiplied by the value of the series at the row's label.
\<close>

definition mul_axis0 :: "(int, 'c) frame \<Rightarrow> series \<Rightarrow> (int, 'c) frame" where
  "mul_axis0 m s =
     (let idx = (if frame_index m = map fst s then frame_index m
                 else sort (remdups (frame_index m @ map fst s)))
      in \<lparr>columns = columns m,
          rows = map (\<lambda>y. (y, map (\<lambda>v. fmul v (series_get s y)) (frame_row m y))) idx\<rparr>)"

text \<open>
  \<open>df.apply(lambda x: x/x.iloc[0])\<close>: every column is divided by its cell in the first
  row. On a frame without rows \<open>apply\<close> returns the frame as it is.
\<close>

definition index_to_first :: "('i, 'c) frame \<Rightarrow> ('i, 'c) frame" where
  "index_to_first m =
     (case rows m of
        [] \<Rightarrow> m
      | r0 # _ \<Rightarrow> m\<lparr>rows := map (\<lambda>r. (fst r, map2 fdiv (snd r) (snd r0))) (rows m)\<rparr>)"

section \<open>Price series (\<open>Home.process_price_data\<close>)\<close>

text \<open>A row of \<open>get_regional_prices\<close>.\<close>

record price_row =
  year :: int
  region :: string
  median_price :: real

text \<open>The dictionary built by \<open>load_economic_data\<close>.\<close>

record econ_data =
  cpi :: series
  rpi :: series
  fx :: series

text \<open>
  \<open>process_price_data\<close>. The argument \<open>_econ_data\<close> is \<open>None\<close> or the dictionary of
  \<open>load_economic_data\<close>, which is never empty and so counts as true.
\<close>

definition process_price_data ::
  "price_row list \<Rightarrow> econ_data option \<Rightarrow> string \<Rightarrow> bool \<Rightarrow> py_error + (int, string) frame" where
  "process_price_data df_prices econ analysis_type index_to_first_year =
     (case pivot (map (\<lambda>r. (year r, region r, median_price r)) df_prices) of
        Inl e \<Rightarrow> Inl e
      | Inr df_pivot \<Rightarrow>
          (let scaled =
             (case econ of
                None \<Rightarrow> df_pivot
              | Some d \<Rightarrow>
                  if analysis_type \<noteq> ''Nominal'' then
                    (if analysis_type = ''Real (CPI Adjusted)'' then mul_axis0 df_pivot (cpi d)
                     else if analysis_type = ''Real (RPI Adjusted)'' then mul_axis0 df_pivot (rpi d)
                     else if analysis_type = ''USD (Nominal)'' then mul_axis0 df_pivot (fx d)
                     else df_pivot)
                  else df_pivot)
           in Inr (if index_to_first_year then index_to_first scaled else scaled)))"

section \<open>Adjustment factors (\<open>UKEconomicData\<close>)\<close>





section \<open>Period comparison\<close>

subsection \<open>Monthly releases (\<open>UKHousingDB.compare_monthly_releases\<close>)\<close>

text \<open>\<open>ROUND(x::numeric, 1)\<close> of PostgreSQL: ties are rounded away from zero.\<close>

definition sql_round1 :: "real \<Rightarrow> real" where
  "sql_round1 x =
     (if 0 \<le> x then of_int \<lfloor>x * 10 + 1 / 2\<rfloor> / 10 else - (of_int \<lfloor>- x * 10 + 1 / 2\<rfloor> / 10))"

text \<open>
  The common table expression \<open>SELECT month, COUNT(*) ... GROUP BY month\<close>, given the
  month of every joined transaction row of the year: one entry for each month that occurs,
  with the number of its rows.
\<close>

definition month_counts :: "int list \<Rightarrow> (int \<times> int) list" where
  "month_counts months = map (\<lambda>m. (m, int (count_list months m))) (sort (remdups months))"

text \<open>A row of the result; \<open>None\<close> is SQL's \<open>NULL\<close>.\<close>

record release_delta =
  month :: int
  current_count :: int
  previous_count :: int
  count_difference :: int
  percentage_change :: "real option"

text \<open>The final \<open>SELECT\<close> for one row of \<open>current_counts\<close> left-joined to \<open>previous_counts\<close>.\<close>

definition release_row :: "(int \<times> int) list \<Rightarrow> int \<times> int \<Rightarrow> release_delta" where
  "release_row previous_counts c =
     (let p = map_of previous_counts (fst c);
          coalesced = (case p of None \<Rightarrow> 0 | Some n \<Rightarrow> n)
      in \<lparr>month = fst c,
          current_count = snd c,
          previous_count = coalesced,
          count_difference = snd c - coalesced,
          percentage_change =
            (case p of
               None \<Rightarrow> None
             | Some n \<Rightarrow>
                 if 0 < n then Some (sql_round1 (real_of_int (snd c - n) / real_of_int n * 100))
                 else None)\<rparr>)"

text \<open>
  The query of \<open>compare_monthly_releases\<close> for one year, given the months of the rows of
  the current and of the previous release in that year; the result is ordered by month.
\<close>

definition compare_monthly_releases :: "int list \<Rightarrow> int list \<Rightarrow> release_delta list" where
  "compare_monthly_releases current_months previous_months =
     map (release_row (month_counts previous_months)) (month_counts current_months)"

subsection \<open>Year over year by price band (\<open>2_Transaction_Volumes.main\<close>)\<close>

text \<open>A row of \<open>df_total\<close>: the transactions of a year in a price band.\<close>

record volume_row =
  vol_year :: int
  price_band :: string
  transaction_count :: int

text \<open>
  Lines 189 to 205 of the page: keep the selected and the previous year, pivot the bands
  against the years, and compute \<open>yoy_change\<close> for every band of the pivot.
\<close>

definition yoy_change :: "volume_row list \<Rightarrow> int \<Rightarrow> py_error + (string \<times> fval) list" where
  "yoy_change df_total selected_year =
     (let df_yoy = filter (\<lambda>r. vol_year r \<in> {selected_year, selected_year - 1}) df_total
      in case pivot (map (\<lambda>r. (price_band r, vol_year r, real_of_int (transaction_count r))) df_yoy) of
           Inl e \<Rightarrow> Inl e
         | Inr df_yoy_pivot \<Rightarrow>
             (case frame_column df_yoy_pivot selected_year of
                Inl e \<Rightarrow> Inl e
              | Inr cur \<Rightarrow>
                  (case frame_column df_yoy_pivot (selected_year - 1) of
                     Inl e \<Rightarrow> Inl e
                   | Inr prev \<Rightarrow>
                       Inr (zip (frame_index df_yoy_pivot)
                              (map2 (\<lambda>c p. fround1 (fmul (fdiv (fsub c p) p) (Num 100))) cur prev)))))"

section \<open>Properties of the price bands\<close>

lemma first_match_Some_iff:
  "first_match ws p = Some k \<longleftrightarrow>
     k < length ws \<and> p \<le> le_bound (ws ! k) \<and> (\<forall>i<k. le_bound (ws ! i) < p)"
proof (induction ws arbitrary: k)
  case Nil
  show ?case by simp
next
  case (Cons w ws)
  show ?case
  proof (cases "p \<le> le_bound w")
    case True
    then show ?thesis by (cases k) auto
  next
    case False
    show ?thesis
    proof (cases k)
      case 0
      with False show ?thesis by (simp split: option.splits)
    next
      case (Suc j)
      have "(\<forall>i<Suc j. le_bound ((w # ws) ! i) < p) \<longleftrightarrow> (\<forall>i<j. le_bound (ws ! i) < p)"
        using False by (auto simp: less_Suc_eq_0_disj)
      with False Suc Cons.IH [of j] show ?thesis
        by (auto split: option.splits)
    qed
  qed
qed

lemma first_match_None_iff:
  "first_match ws p = None \<longleftrightarrow> (\<forall>i<length ws. le_bound (ws ! i) < p)"
proof (induction ws)
  case Nil
  show ?case by simp
next
  case (Cons w ws)
  show ?case
    using Cons.IH by (auto simp: less_Suc_eq_0_disj split: option.splits)
qed

lemma range_len_pos:
  assumes "0 < step" "0 < stop"
  shows "range_len 0 stop step = nat ((stop - 1) div step + 1)" "0 < range_len 0 stop step"
proof -
  show "range_len 0 stop step = nat ((stop - 1) div step + 1)"
    using assms by (simp add: range_len_def)
  have "0 \<le> (stop - 1) div step" using assms by (simp add: pos_imp_zdiv_nonneg_iff)
  then show "0 < range_len 0 stop step" using assms by (simp add: range_len_def)
qed

lemma range_len_bounds:
  assumes "0 < step" "0 < stop"
  shows "stop \<le> int (range_len 0 stop step) * step"
    and "int (range_len 0 stop step) * step < stop + step"
proof -
  define q where "q = (stop - 1) div step"
  have q0: "0 \<le> q" using assms by (simp add: q_def pos_imp_zdiv_nonneg_iff)
  have n: "int (range_len 0 stop step) = q + 1"
    using assms q0 by (simp add: range_len_def q_def)
  have eq: "stop - 1 = q * step + (stop - 1) mod step"
    by (simp add: q_def)
  have m: "0 \<le> (stop - 1) mod step" "(stop - 1) mod step < step"
    using assms by simp_all
  show "stop \<le> int (range_len 0 stop step) * step"
    using n eq m by (simp add: algebra_simps)
  show "int (range_len 0 stop step) * step < stop + step"
    using n eq m by (simp add: algebra_simps)
qed

lemma volume_by_price_bands_pos:
  assumes "0 < interval" "0 < price_limit"
  shows "volume_by_price_bands interval price_limit =
     Inr \<lparr>clauses = map (\<lambda>k. when_line interval (int k * interval)) [0..<range_len 0 price_limit interval],
          else_label = ''Over '' @ bound (int (range_len 0 price_limit interval) * interval)\<rparr>"
proof -
  let ?n = "range_len 0 price_limit interval"
  have n0: "0 < ?n" using assms by (rule range_len_pos)
  have r: "py_range 0 price_limit interval = Inr (map (\<lambda>k. int k * interval) [0..<?n])"
    using assms by (simp add: py_range_def)
  have ne: "map (\<lambda>k. int k * interval) [0..<?n] \<noteq> []" using n0 by simp
  have "last (map (\<lambda>k. int k * interval) [0..<?n]) = int (?n - 1) * interval"
    using n0 by (simp add: last_map)
  also have "\<dots> + interval = int ?n * interval"
    using n0 by (simp add: algebra_simps of_nat_diff)
  finally have l: "last (map (\<lambda>k. int k * interval) [0..<?n]) + interval = int ?n * interval" .
  show ?thesis
    unfolding volume_by_price_bands_def r py_last_def using ne l
    by (simp add: comp_def)
qed

lemma le_bound_when_line: "le_bound (when_line interval j) = (j + interval) * 1000"
  by (simp add: when_line_def)

lemma mono_bounds_prefix:
  assumes "0 < (c::int)"
  shows "(\<forall>i<k. (int i * c + c) * 1000 < p) \<longleftrightarrow> (k = 0 \<or> int k * c * 1000 < p)"
proof (cases k)
  case 0
  then show ?thesis by simp
next
  case (Suc j)
  have "(int i * c + c) * 1000 \<le> (int j * c + c) * 1000" if "i < Suc j" for i
  proof -
    have "int i \<le> int j" using that by simp
    then have "int i * c \<le> int j * c" using assms by (simp add: mult_right_mono)
    then show ?thesis by simp
  qed
  then have "(\<forall>i<Suc j. (int i * c + c) * 1000 < p) \<longleftrightarrow> (int j * c + c) * 1000 < p"
    by (meson lessI order_le_less_trans)
  then show ?thesis using Suc by (simp add: algebra_simps)
qed

text \<open>
  Claim C1, as the code has it. For \<open>0 < interval \<le> price_limit\<close> the generation succeeds
  with one \<open>WHEN\<close> line per lower bound \<open>j = 0, interval, 2 * interval, ...\<close> below
  \<open>price_limit\<close>. A price is classified by line \<open>k\<close> exactly when it lies in
  \<open>(k * interval * 1000, (k + 1) * interval * 1000]\<close>, the upper end included and the lower
  end excluded (line 0 also takes every price at or below its upper end), and by the
  \<open>ELSE\<close> line exactly when it is above the last upper end. So every price gets exactly one
  band. The last upper end is the least multiple of \<open>interval\<close> that is at least
  \<open>price_limit\<close>; it is \<open>price_limit\<close> only when \<open>interval\<close> divides it.
\<close>

theorem price_bands_partition:
  assumes "0 < interval" and "interval \<le> price_limit"
  shows "\<exists>bs. volume_by_price_bands interval price_limit = Inr bs
    \<and> length (clauses bs) = nat ((price_limit - 1) div interval + 1)
    \<and> (\<forall>k<length (clauses bs). clauses bs ! k = when_line interval (int k * interval))
    \<and> (\<forall>p k. first_match (clauses bs) p = Some k \<longleftrightarrow>
          k < length (clauses bs) \<and> (k = 0 \<or> int k * interval * 1000 < p)
          \<and> p \<le> (int k * interval + interval) * 1000)
    \<and> (\<forall>p. first_match (clauses bs) p = None \<longleftrightarrow>
          int (length (clauses bs)) * interval * 1000 < p)
    \<and> else_label bs = ''Over '' @ bound (int (length (clauses bs)) * interval)
    \<and> price_limit \<le> int (length (clauses bs)) * interval
    \<and> int (length (clauses bs)) * interval < price_limit + interval"
proof -
  let ?n = "range_len 0 price_limit interval"
  let ?ws = "map (\<lambda>k. when_line interval (int k * interval)) [0..<?n]"
  let ?bs = "\<lparr>clauses = ?ws, else_label = ''Over '' @ bound (int ?n * interval)\<rparr>"
  have lim: "0 < price_limit" using assms by simp
  have gen: "volume_by_price_bands interval price_limit = Inr ?bs"
    using assms(1) lim by (rule volume_by_price_bands_pos)
  have len: "length ?ws = ?n" by simp
  have nth: "le_bound (?ws ! i) = (int i * interval + interval) * 1000" if "i < ?n" for i
    using that by (simp add: le_bound_when_line)
  have some: "first_match ?ws p = Some k \<longleftrightarrow>
      k < ?n \<and> (k = 0 \<or> int k * interval * 1000 < p) \<and> p \<le> (int k * interval + interval) * 1000"
    for p k
  proof (cases "k < ?n")
    case False
    then show ?thesis by (simp add: first_match_Some_iff)
  next
    case True
    then have "(\<forall>i<k. le_bound (?ws ! i) < p) \<longleftrightarrow> (\<forall>i<k. (int i * interval + interval) * 1000 < p)"
      using nth by auto
    also have "\<dots> \<longleftrightarrow> (k = 0 \<or> int k * interval * 1000 < p)"
      using assms(1) by (rule mono_bounds_prefix)
    finally show ?thesis
      using True nth [OF True] by (auto simp: first_match_Some_iff)
  qed
  have none: "first_match ?ws p = None \<longleftrightarrow> int ?n * interval * 1000 < p" for p
  proof -
    have n0: "?n \<noteq> 0" using range_len_pos(2) [OF assms(1) lim] by simp
    have "first_match ?ws p = None \<longleftrightarrow> (\<forall>i<?n. (int i * interval + interval) * 1000 < p)"
      using nth by (auto simp: first_match_None_iff)
    also have "\<dots> \<longleftrightarrow> (?n = 0 \<or> int ?n * interval * 1000 < p)"
      using assms(1) by (rule mono_bounds_prefix)
    finally show ?thesis using n0 by simp
  qed
  have "length (clauses ?bs) = nat ((price_limit - 1) div interval + 1)"
    using range_len_pos(1) [OF assms(1) lim] by simp
  moreover have "\<forall>k<length (clauses ?bs). clauses ?bs ! k = when_line interval (int k * interval)"
    by simp
  moreover have "\<forall>p k. first_match (clauses ?bs) p = Some k \<longleftrightarrow>
          k < length (clauses ?bs) \<and> (k = 0 \<or> int k * interval * 1000 < p)
          \<and> p \<le> (int k * interval + interval) * 1000"
    using some by simp
  moreover have "\<forall>p. first_match (clauses ?bs) p = None \<longleftrightarrow>
          int (length (clauses ?bs)) * interval * 1000 < p"
    using none by simp
  moreover have "else_label ?bs = ''Over '' @ bound (int (length (clauses ?bs)) * interval)"
    by simp
  moreover have "price_limit \<le> int (length (clauses ?bs)) * interval"
    using range_len_bounds(1) [OF assms(1) lim] by simp
  moreover have "int (length (clauses ?bs)) * interval < price_limit + interval"
    using range_len_bounds(2) [OF assms(1) lim] by simp
  ultimately show ?thesis using gen by blast
qed

text \<open>The partition theorem at interval 100 and limit 300: 150000 is classified by line 1.\<close>

theorem price_bands_partition_witness:
  "(0::int) < 100 \<and> (100::int) \<le> 300 \<and> band_index 100 300 150000 = Inr (Some 1)"
proof -
  have a: "(0::int) < 100" and b: "(100::int) \<le> 300" by simp_all
  from price_bands_partition [OF a b] obtain bs where
    gen: "volume_by_price_bands 100 300 = Inr bs" and
    len: "length (clauses bs) = nat ((300 - 1) div 100 + 1)" and
    some: "\<forall>p k. first_match (clauses bs) p = Some k \<longleftrightarrow>
          k < length (clauses bs) \<and> (k = 0 \<or> int k * 100 * 1000 < p)
          \<and> p \<le> (int k * 100 + 100) * 1000"
    by blast
  have "first_match (clauses bs) 150000 = Some 1 \<longleftrightarrow>
      1 < length (clauses bs) \<and> (1 = (0::nat) \<or> int 1 * 100 * 1000 < 150000)
      \<and> 150000 \<le> (int 1 * 100 + 100) * 1000"
    using some by blast
  then have "first_match (clauses bs) 150000 = Some 1"
    by (simp add: len)
  then show ?thesis using gen by (simp add: band_index_def)
qed

text \<open>
  Claim C1 as stated fails: with interval 100 and limit 300 the price 100000 belongs to
  the claim's band \<open>[100000, 200000)\<close> but is classified by line 0, labelled \<open>0K-100K\<close>;
  with limit 250 the price 260000 is above \<open>250 * 1000\<close> but is not in the unbounded band.
\<close>

theorem price_bands_boundary_counterexample:
  "band_index 100 300 100000 = Inr (Some 0)
   \<and> band_of_price 100 300 100000 = Inr ''0K-100K''
   \<and> band_of_price 100 250 260000 = Inr ''200K-300K''"
  by code_simp




lemma range_len_0_iff:
  assumes "step \<noteq> 0"
  shows "range_len 0 stop step = 0 \<longleftrightarrow> (0 < step \<and> stop \<le> 0) \<or> (step < 0 \<and> 0 \<le> stop)"
proof (cases "0 < step")
  case True
  show ?thesis
  proof (cases "0 < stop")
    case True
    with \<open>0 < step\<close> show ?thesis using range_len_pos(2) [of step stop] by simp
  next
    case False
    with True show ?thesis by (simp add: range_len_def)
  qed
next
  case False
  then have neg: "step < 0" using assms by simp
  show ?thesis
  proof (cases "stop < 0")
    case True
    have "0 \<le> (- stop - 1) div (- step)"
      using neg True by (simp add: pos_imp_zdiv_nonneg_iff)
    then show ?thesis using neg True by (simp add: range_len_def)
  next
    case False
    with neg show ?thesis by (simp add: range_len_def)
  qed
qed

text \<open>
  Claim C8, as the code has it. The arguments are not validated. The generation succeeds
  exactly when interval and limit are both positive or both negative, so also for a
  positive limit below the interval; it raises \<open>ValueError\<close> exactly for a zero interval
  (from \<open>range\<close>) and \<open>IndexError\<close> exactly when the range is empty (from
  \<open>price_range[-1]\<close>).
\<close>

theorem volume_by_price_bands_outcome:
  "((\<exists>bs. volume_by_price_bands interval price_limit = Inr bs) \<longleftrightarrow>
      (0 < interval \<and> 0 < price_limit) \<or> (interval < 0 \<and> price_limit < 0))
   \<and> (volume_by_price_bands interval price_limit = Inl ValueError \<longleftrightarrow> interval = 0)
   \<and> (volume_by_price_bands interval price_limit = Inl IndexError \<longleftrightarrow>
      (0 < interval \<and> price_limit \<le> 0) \<or> (interval < 0 \<and> 0 \<le> price_limit))
   \<and> volume_by_price_bands interval price_limit \<noteq> Inl KeyError"
proof (cases "interval = 0")
  case True
  then show ?thesis by (simp add: volume_by_price_bands_def py_range_def)
next
  case False
  let ?n = "range_len 0 price_limit interval"
  have e: "?n = 0 \<longleftrightarrow> (0 < interval \<and> price_limit \<le> 0) \<or> (interval < 0 \<and> 0 \<le> price_limit)"
    using False by (rule range_len_0_iff)
  show ?thesis
  proof (cases "?n = 0")
    case True
    then have "volume_by_price_bands interval price_limit = Inl IndexError"
      using False by (simp add: volume_by_price_bands_def py_range_def py_last_def)
    then show ?thesis using True e False by auto
  next
    case nz: False
    then have "\<exists>bs. volume_by_price_bands interval price_limit = Inr bs"
      using False by (simp add: volume_by_price_bands_def py_range_def py_last_def)
    then show ?thesis using nz e False by auto
  qed
qed

text \<open>The outcome theorem at interval 100 and limit 300.\<close>

theorem volume_by_price_bands_outcome_witness:
  "\<exists>bs. volume_by_price_bands 100 300 = Inr bs"
  using volume_by_price_bands_outcome [of 100 300] by simp

text \<open>
  Claim C8 as stated fails: limit 50 below interval 100 yields bands, and so does a
  negative interval with a negative limit; limit 0 raises \<open>IndexError\<close>.
\<close>

theorem volume_by_price_no_range_check_counterexample:
  "band_labels 100 50 = Inr [''0K-100K'', ''Over 100K'']
   \<and> band_labels (-1) (-2) = Inr [''0K--1K'', ''-1K--2K'', ''Over -2K'']
   \<and> band_labels 100 0 = Inl IndexError"
  by code_simp

section \<open>Properties of the price series and the adjustment factors\<close>

lemma fmul_NaN_right: "fmul v NaN = NaN"
  by (cases v) simp_all

lemma fdiv_NaN_right: "fdiv v NaN = NaN"
  by (cases v) simp_all

lemma fdiv_zero_not_num: "fdiv v (Num 0) \<noteq> Num r"
  by (cases v) simp_all

lemma map_of_keyed:
  "map_of (map (\<lambda>k. (k, f k)) ks) k = (if k \<in> set ks then Some (f k) else None)"
  by (induction ks) auto

lemma pivot_Inr:
  assumes "pivot df = Inr m"
  shows "columns m = sort (remdups (map (\<lambda>(i, c, v). c) df))"
    and "frame_index m = sort (remdups (map (\<lambda>(i, c, v). i) df))"
    and "distinct (map (\<lambda>(i, c, v). (i, c)) df)"
  using assms
  by (auto simp: pivot_def frame_index_def Let_def comp_def split: if_splits)

lemma pivot_outcome:
  "pivot df = Inl e \<longleftrightarrow> e = ValueError \<and> \<not> distinct (map (\<lambda>(i, c, v). (i, c)) df)"
  by (auto simp: pivot_def Let_def)

lemma sorted_distinct_sort_remdups: "sorted_wrt (<) (sort (remdups xs))"
  by (simp add: strict_sorted_iff)

lemma frame_index_mul_axis0:
  "frame_index (mul_axis0 m s) =
     (if frame_index m = map fst s then frame_index m
      else sort (remdups (frame_index m @ map fst s)))"
  by (simp add: mul_axis0_def frame_index_def Let_def comp_def)

lemma columns_mul_axis0: "columns (mul_axis0 m s) = columns m"
  by (simp add: mul_axis0_def Let_def)

lemma frame_index_index_to_first: "frame_index (index_to_first m) = frame_index m"
  by (simp add: index_to_first_def frame_index_def comp_def split: list.splits)

lemma columns_index_to_first: "columns (index_to_first m) = columns m"
  by (simp add: index_to_first_def split: list.splits)

lemma strict_sorted_mul_axis0:
  "sorted_wrt (<) (frame_index m) \<Longrightarrow> sorted_wrt (<) (frame_index (mul_axis0 m s))"
  by (cases "frame_index m = map fst s") (simp_all add: frame_index_mul_axis0 strict_sorted_iff)

lemma set_frame_index_mul_axis0:
  "set (frame_index (mul_axis0 m s)) = set (frame_index m) \<union> fst ` set s"
  by (auto simp: frame_index_mul_axis0)

lemma process_price_data_cases:
  assumes "process_price_data df econ t ix = Inr m"
  obtains pv s where "pivot (map (\<lambda>r. (year r, region r, median_price r)) df) = Inr pv"
    and "m = pv \<or> m = mul_axis0 pv s \<or> m = index_to_first pv \<or> m = index_to_first (mul_axis0 pv s)"
proof -
  obtain pv where pv: "pivot (map (\<lambda>r. (year r, region r, median_price r)) df) = Inr pv"
    using assms by (auto simp: process_price_data_def split: sum.splits)
  have "\<exists>s. m = pv \<or> m = mul_axis0 pv s \<or> m = index_to_first pv \<or> m = index_to_first (mul_axis0 pv s)"
    using assms pv
    by (auto simp: process_price_data_def Let_def split: option.splits if_splits)
  with pv that show thesis by blast
qed

text \<open>
  Claim C9, as the code has it. Whatever the order of the input rows, the matrix returned
  by \<open>process_price_data\<close> has its year rows strictly ascending and its columns strictly
  ascending by region name: \<open>pivot\<close> sorts both axes, so the columns are the distinct
  regions of the rows in sorted order, not in the order of first occurrence.
\<close>

theorem process_price_data_ordering:
  assumes "process_price_data df econ t ix = Inr m"
  shows "sorted_wrt (<) (frame_index m)
    \<and> year ` set df \<subseteq> set (frame_index m)
    \<and> (econ = None \<longrightarrow> frame_index m = sort (remdups (map year df)))
    \<and> columns m = sort (remdups (map region df))
    \<and> sorted_wrt (<) (columns m)"
proof -
  from assms obtain pv s where
    pv: "pivot (map (\<lambda>r. (year r, region r, median_price r)) df) = Inr pv" and
    m: "m = pv \<or> m = mul_axis0 pv s \<or> m = index_to_first pv \<or> m = index_to_first (mul_axis0 pv s)"
    by (rule process_price_data_cases)
  have cols: "columns pv = sort (remdups (map region df))"
    using pivot_Inr(1) [OF pv] by (simp add: comp_def)
  have idx: "frame_index pv = sort (remdups (map year df))"
    using pivot_Inr(2) [OF pv] by (simp add: comp_def)
  have s0: "sorted_wrt (<) (frame_index pv)"
    unfolding idx by (rule sorted_distinct_sort_remdups)
  have "sorted_wrt (<) (frame_index m)"
    using m s0 strict_sorted_mul_axis0 [OF s0, of s]
    by (auto simp: frame_index_index_to_first)
  moreover have "year ` set df \<subseteq> set (frame_index m)"
    using m idx by (auto simp: frame_index_index_to_first set_frame_index_mul_axis0)
  moreover have "econ = None \<longrightarrow> frame_index m = sort (remdups (map year df))"
    using assms pv idx
    by (auto simp: process_price_data_def frame_index_index_to_first split: if_splits)
  moreover have c: "columns m = sort (remdups (map region df))"
    using m cols by (auto simp: columns_index_to_first columns_mul_axis0)
  moreover have "sorted_wrt (<) (columns m)"
    unfolding c by (rule sorted_distinct_sort_remdups)
  ultimately show ?thesis by blast
qed

text \<open>The ordering theorem on two rows given latest year and later region first.\<close>

theorem process_price_data_ordering_witness:
  "process_price_data
     [\<lparr>year = 2021, region = ''South East'', median_price = 3\<rparr>,
      \<lparr>year = 2020, region = ''London'', median_price = 2\<rparr>] None ''Nominal'' False
   = Inr \<lparr>columns = [''London'', ''South East''],
          rows = [(2020, [Num 2, NaN]), (2021, [NaN, Num 3])]\<rparr>
   \<and> sorted_wrt (<) [2020, 2021 :: int]
   \<and> sorted_wrt (<) [''London'', ''South East'']"
proof -
  let ?df = "[\<lparr>year = 2021, region = ''South East'', median_price = 3\<rparr>,
      \<lparr>year = 2020, region = ''London'', median_price = 2\<rparr>]"
  let ?m = "\<lparr>columns = [''London'', ''South East''],
          rows = [(2020 :: int, [Num 2, NaN]), (2021, [NaN, Num 3])]\<rparr>"
  have h: "process_price_data ?df None ''Nominal'' False = Inr ?m"
    by code_simp
  from process_price_data_ordering [OF h]
  have "sorted_wrt (<) (frame_index ?m)" and "sorted_wrt (<) (columns ?m)"
    by blast+
  then show ?thesis using h by (simp add: frame_index_def)
qed

text \<open>
  Claim C9 as stated fails: the rows name \<open>South East\<close> before \<open>London\<close>, and the columns
  come out as \<open>London\<close>, \<open>South East\<close>.
\<close>

theorem pivot_sorts_columns_counterexample:
  "process_price_data
     [\<lparr>year = 2020, region = ''South East'', median_price = 1\<rparr>,
      \<lparr>year = 2020, region = ''London'', median_price = 2\<rparr>] None ''Nominal'' False
   = Inr \<lparr>columns = [''London'', ''South East''], rows = [(2020, [Num 2, Num 1])]\<rparr>"
  by code_simp

text \<open>
  Claim C10. For an analysis type other than the four known ones, with economic data
  supplied and without indexing, \<open>process_price_data\<close> returns the pivot of the rows with
  no scaling, exactly as for \<open>Nominal\<close>; it returns a matrix whenever the rows hold at most
  one row for each year and region (the only error is the one \<open>pivot\<close> raises on a repeated
  pair, for every analysis type alike).
\<close>

theorem process_price_data_other_type:
  assumes "t \<noteq> ''Nominal''" and "t \<noteq> ''Real (CPI Adjusted)''"
    and "t \<noteq> ''Real (RPI Adjusted)''" and "t \<noteq> ''USD (Nominal)''"
  shows "process_price_data df (Some d) t False
           = pivot (map (\<lambda>r. (year r, region r, median_price r)) df)
    \<and> process_price_data df (Some d) t False = process_price_data df (Some d) ''Nominal'' False
    \<and> (distinct (map (\<lambda>r. (year r, region r)) df)
          \<longrightarrow> (\<exists>m. process_price_data df (Some d) t False = Inr m))"
proof -
  let ?p = "pivot (map (\<lambda>r. (year r, region r, median_price r)) df)"
  have a: "process_price_data df (Some d) t False = ?p"
    using assms by (simp add: process_price_data_def split: sum.splits)
  have b: "process_price_data df (Some d) ''Nominal'' False = ?p"
    by (simp add: process_price_data_def split: sum.splits)
  have c: "\<exists>m. ?p = Inr m" if "distinct (map (\<lambda>r. (year r, region r)) df)"
    using that by (simp add: pivot_def Let_def comp_def case_prod_beta)
  show ?thesis using a b c by simp
qed

text \<open>An unknown analysis type with economic data supplied: the prices are unscaled.\<close>

theorem process_price_data_other_type_witness:
  "process_price_data
     [\<lparr>year = 2020, region = ''London'', median_price = 2\<rparr>]
     (Some \<lparr>cpi = [(2020, Num 2)], rpi = [(2020, Num 3)], fx = [(2020, Num 4)]\<rparr>)
     ''Real'' False
   = Inr \<lparr>columns = [''London''], rows = [(2020, [Num 2])]\<rparr>"
proof -
  let ?df = "[\<lparr>year = 2020, region = ''London'', median_price = 2\<rparr>]"
  let ?d = "\<lparr>cpi = [(2020, Num 2)], rpi = [(2020, Num 3)], fx = [(2020, Num 4)]\<rparr>"
  have "process_price_data ?df (Some ?d) ''Real'' False
          = pivot (map (\<lambda>r. (year r, region r, median_price r)) ?df)"
    using process_price_data_other_type [of "''Real''" ?df ?d] by simp
  also have "\<dots> = Inr \<lparr>columns = [''London''], rows = [(2020, [Num 2])]\<rparr>"
    by code_simp
  finally show ?thesis .
qed

lemma frame_row_mul_axis0:
  assumes "y \<in> set (frame_index (mul_axis0 m s))"
  shows "frame_row (mul_axis0 m s) y = map (\<lambda>v. fmul v (series_get s y)) (frame_row m y)"
proof -
  let ?idx = "if frame_index m = map fst s then frame_index m
              else sort (remdups (frame_index m @ map fst s))"
  have i: "y \<in> set ?idx" using assms by (simp add: frame_index_mul_axis0)
  have r: "rows (mul_axis0 m s)
      = map (\<lambda>y. (y, map (\<lambda>v. fmul v (series_get s y)) (frame_row m y))) ?idx"
    by (simp add: mul_axis0_def Let_def)
  show ?thesis
    unfolding frame_row_def [of "mul_axis0 m s"] r map_of_keyed using i by simp
qed

lemma series_get_absent: "y \<notin> fst ` set s \<Longrightarrow> series_get s y = NaN"
proof -
  assume "y \<notin> fst ` set s"
  then have "map_of s y = None" by (simp add: map_of_eq_None_iff)
  then show ?thesis by (simp add: series_get_def)
qed

lemma series_get_present:
  "distinct (map fst s) \<Longrightarrow> (y, v) \<in> set s \<Longrightarrow> series_get s y = v"
  by (simp add: series_get_def)

text \<open>
  Claim C5, as the code has it. With an adjustment series (CPI, RPI or FX) the pivot is
  multiplied row by row after an outer alignment on the year: the result has the years of
  either side, every cell of a year is its pivot cell times the series value of that year,
  and a pivoted year that the series lacks raises nothing: its cells become \<open>NaN\<close>.
\<close>

theorem scaling_aligns_on_year:
  assumes "pivot (map (\<lambda>r. (year r, region r, median_price r)) df) = Inr pv"
  shows "process_price_data df (Some d) ''Real (CPI Adjusted)'' False = Inr (mul_axis0 pv (cpi d))
    \<and> process_price_data df (Some d) ''Real (RPI Adjusted)'' False = Inr (mul_axis0 pv (rpi d))
    \<and> process_price_data df (Some d) ''USD (Nominal)'' False = Inr (mul_axis0 pv (fx d))
    \<and> set (frame_index (mul_axis0 pv s)) = set (frame_index pv) \<union> fst ` set s
    \<and> (\<forall>y\<in>set (frame_index (mul_axis0 pv s)).
          frame_row (mul_axis0 pv s) y = map (\<lambda>v. fmul v (series_get s y)) (frame_row pv y))
    \<and> (\<forall>y v. distinct (map fst s) \<longrightarrow> (y, v) \<in> set s \<longrightarrow> series_get s y = v)
    \<and> (\<forall>y\<in>set (frame_index pv). y \<notin> fst ` set s \<longrightarrow>
          frame_row (mul_axis0 pv s) y = replicate (length (frame_row pv y)) NaN)"
proof -
  have "process_price_data df (Some d) ''Real (CPI Adjusted)'' False = Inr (mul_axis0 pv (cpi d))"
    using assms by (simp add: process_price_data_def)
  moreover have "process_price_data df (Some d) ''Real (RPI Adjusted)'' False = Inr (mul_axis0 pv (rpi d))"
    using assms by (simp add: process_price_data_def)
  moreover have "process_price_data df (Some d) ''USD (Nominal)'' False = Inr (mul_axis0 pv (fx d))"
    using assms by (simp add: process_price_data_def)
  moreover have "set (frame_index (mul_axis0 pv s)) = set (frame_index pv) \<union> fst ` set s"
    by (rule set_frame_index_mul_axis0)
  moreover have "\<forall>y\<in>set (frame_index (mul_axis0 pv s)).
          frame_row (mul_axis0 pv s) y = map (\<lambda>v. fmul v (series_get s y)) (frame_row pv y)"
    by (simp add: frame_row_mul_axis0)
  moreover have "\<forall>y v. distinct (map fst s) \<longrightarrow> (y, v) \<in> set s \<longrightarrow> series_get s y = v"
    by (simp add: series_get_present)
  moreover have "\<forall>y\<in>set (frame_index pv). y \<notin> fst ` set s \<longrightarrow>
          frame_row (mul_axis0 pv s) y = replicate (length (frame_row pv y)) NaN"
  proof (intro ballI impI)
    fix y assume y: "y \<in> set (frame_index pv)" and n: "y \<notin> fst ` set s"
    have "y \<in> set (frame_index (mul_axis0 pv s))"
      using y by (simp add: set_frame_index_mul_axis0)
    then have "frame_row (mul_axis0 pv s) y = map (\<lambda>v. fmul v NaN) (frame_row pv y)"
      using n by (simp add: frame_row_mul_axis0 series_get_absent)
    then show "frame_row (mul_axis0 pv s) y = replicate (length (frame_row pv y)) NaN"
      by (simp add: fmul_NaN_right map_replicate_const)
  qed
  ultimately show ?thesis by blast
qed

text \<open>A price of 200000 in 2020 with factor 1.21 becomes 242000.\<close>

theorem scaling_aligns_on_year_witness:
  "process_price_data
     [\<lparr>year = 2020, region = ''London'', median_price = 200000\<rparr>]
     (Some \<lparr>cpi = [(2020, Num (121 / 100))], rpi = [], fx = []\<rparr>)
     ''Real (CPI Adjusted)'' False
   = Inr \<lparr>columns = [''London''], rows = [(2020, [Num 242000])]\<rparr>"
proof -
  let ?df = "[\<lparr>year = 2020, region = ''London'', median_price = 200000\<rparr>]"
  let ?d = "\<lparr>cpi = [(2020, Num (121 / 100))], rpi = [], fx = []\<rparr>"
  let ?pv = "\<lparr>columns = [''London''], rows = [(2020 :: int, [Num 200000])]\<rparr>"
  have h: "pivot (map (\<lambda>r. (year r, region r, median_price r)) ?df) = Inr ?pv"
    by code_simp
  have "process_price_data ?df (Some ?d) ''Real (CPI Adjusted)'' False = Inr (mul_axis0 ?pv (cpi ?d))"
    using scaling_aligns_on_year [OF h] by blast
  also have "mul_axis0 ?pv (cpi ?d) = \<lparr>columns = [''London''], rows = [(2020, [Num 242000])]\<rparr>"
    by code_simp
  finally show ?thesis .
qed

text \<open>
  Claim C5 as stated fails: 2021 is pivoted and absent from the CPI series; the call
  returns a matrix whose 2021 cell is \<open>NaN\<close> instead of failing.
\<close>

theorem missing_adjustment_year_counterexample:
  "process_price_data
     [\<lparr>year = 2020, region = ''London'', median_price = 100\<rparr>,
      \<lparr>year = 2021, region = ''London'', median_price = 100\<rparr>]
     (Some \<lparr>cpi = [(2020, Num 2)], rpi = [], fx = []\<rparr>)
     ''Real (CPI Adjusted)'' False
   = Inr \<lparr>columns = [''London''], rows = [(2020, [Num 200]), (2021, [NaN])]\<rparr>"
  by code_simp

lemma process_price_data_index_step:
  "process_price_data df econ t True = map_sum id index_to_first (process_price_data df econ t False)"
  by (simp add: process_price_data_def Let_def split: sum.splits)

lemma rows_index_to_first:
  assumes "i < length (rows X)"
  shows "rows (index_to_first X) ! i
       = (fst (rows X ! i), map2 fdiv (snd (rows X ! i)) (snd (rows X ! 0)))"
proof (cases "rows X")
  case Nil
  with assms show ?thesis by simp
next
  case (Cons r0 rest)
  then have "rows (index_to_first X) = map (\<lambda>r. (fst r, map2 fdiv (snd r) (snd r0))) (rows X)"
    by (simp add: index_to_first_def)
  moreover have "rows X ! 0 = r0" using Cons by simp
  ultimately show ?thesis using assms by simp
qed

lemma fdiv_bad_base: "b = Num 0 \<or> b = NaN \<Longrightarrow> fdiv v b \<noteq> Num r"
  by (auto simp: fdiv_NaN_right fdiv_zero_not_num)

text \<open>
  Claim C2, as the code has it. With \<open>index_to_first_year\<close> the matrix computed so far is
  returned with every cell divided by the cell of the same column in the first row, the
  earliest year of the matrix; no error is raised, and in a column whose first-row cell is
  0 or missing no cell of the result is a finite number (each is infinite or \<open>NaN\<close>).
\<close>

theorem index_to_first_year_divides_by_first_row:
  assumes "process_price_data df econ t False = Inr X"
  shows "process_price_data df econ t True = Inr (index_to_first X)
    \<and> columns (index_to_first X) = columns X
    \<and> frame_index (index_to_first X) = frame_index X
    \<and> (\<forall>i<length (rows X). snd (rows (index_to_first X) ! i)
          = map2 fdiv (snd (rows X ! i)) (snd (rows X ! 0)))
    \<and> (\<forall>i<length (rows X). \<forall>j<length (snd (rows X ! i)). j < length (snd (rows X ! 0)) \<longrightarrow>
          (snd (rows X ! 0) ! j = Num 0 \<or> snd (rows X ! 0) ! j = NaN) \<longrightarrow>
          (\<forall>r. snd (rows (index_to_first X) ! i) ! j \<noteq> Num r))"
proof -
  have "process_price_data df econ t True = Inr (index_to_first X)"
    using assms by (simp add: process_price_data_index_step)
  moreover have "columns (index_to_first X) = columns X"
    by (rule columns_index_to_first)
  moreover have "frame_index (index_to_first X) = frame_index X"
    by (rule frame_index_index_to_first)
  moreover have cells: "\<forall>i<length (rows X). snd (rows (index_to_first X) ! i)
          = map2 fdiv (snd (rows X ! i)) (snd (rows X ! 0))"
    by (simp add: rows_index_to_first)
  moreover have "\<forall>i<length (rows X). \<forall>j<length (snd (rows X ! i)). j < length (snd (rows X ! 0)) \<longrightarrow>
          (snd (rows X ! 0) ! j = Num 0 \<or> snd (rows X ! 0) ! j = NaN) \<longrightarrow>
          (\<forall>r. snd (rows (index_to_first X) ! i) ! j \<noteq> Num r)"
  proof (intro allI impI)
    fix i j r
    assume i: "i < length (rows X)" and j: "j < length (snd (rows X ! i))"
      and j0: "j < length (snd (rows X ! 0))"
      and b: "snd (rows X ! 0) ! j = Num 0 \<or> snd (rows X ! 0) ! j = NaN"
    have "snd (rows (index_to_first X) ! i) ! j
            = fdiv (snd (rows X ! i) ! j) (snd (rows X ! 0) ! j)"
      using cells i j j0 by simp
    then show "snd (rows (index_to_first X) ! i) ! j \<noteq> Num r"
      using fdiv_bad_base [OF b] by simp
  qed
  ultimately show ?thesis by blast
qed

text \<open>Indexing a column 4, 5 gives 1, 1.25.\<close>

theorem index_to_first_year_divides_by_first_row_witness:
  "process_price_data
     [\<lparr>year = 2020, region = ''London'', median_price = 4\<rparr>,
      \<lparr>year = 2021, region = ''London'', median_price = 5\<rparr>] None ''Nominal'' True
   = Inr \<lparr>columns = [''London''], rows = [(2020, [Num 1]), (2021, [Num (5 / 4)])]\<rparr>"
proof -
  let ?df = "[\<lparr>year = 2020, region = ''London'', median_price = 4\<rparr>,
      \<lparr>year = 2021, region = ''London'', median_price = 5\<rparr>]"
  let ?X = "\<lparr>columns = [''London''], rows = [(2020 :: int, [Num 4]), (2021, [Num 5])]\<rparr>"
  have h: "process_price_data ?df None ''Nominal'' False = Inr ?X"
    by code_simp
  have "process_price_data ?df None ''Nominal'' True = Inr (index_to_first ?X)"
    using index_to_first_year_divides_by_first_row [OF h] by blast
  also have "index_to_first ?X
      = \<lparr>columns = [''London''], rows = [(2020, [Num 1]), (2021, [Num (5 / 4)])]\<rparr>"
    by code_simp
  finally show ?thesis .
qed

text \<open>
  Claim C2 as stated fails: \<open>London\<close> starts with 0 in 2020 and \<open>Wales\<close> has its first
  value in 2021; the call returns a matrix with an infinite cell and \<open>NaN\<close> cells, and
  \<open>Wales\<close> is divided by its missing 2020 cell, not by its 2021 value.
\<close>

theorem index_base_zero_counterexample:
  "process_price_data
     [\<lparr>year = 2020, region = ''London'', median_price = 0\<rparr>,
      \<lparr>year = 2021, region = ''London'', median_price = 5\<rparr>,
      \<lparr>year = 2021, region = ''Wales'', median_price = 4\<rparr>,
      \<lparr>year = 2022, region = ''Wales'', median_price = 8\<rparr>] None ''Nominal'' True
   = Inr \<lparr>columns = [''London'', ''Wales''],
          rows = [(2020, [NaN, NaN]), (2021, [Infty True, NaN]), (2022, [NaN, NaN])]\<rparr>"
  by code_simp







section \<open>Properties of the period comparisons\<close>

lemma map_of_month_counts:
  "map_of (month_counts ms) m = (if m \<in> set ms then Some (int (count_list ms m)) else None)"
  by (simp add: month_counts_def map_of_keyed)

lemma months_compare_monthly_releases:
  "map month (compare_monthly_releases cur prev) = sort (remdups cur)"
  by (simp add: compare_monthly_releases_def month_counts_def release_row_def Let_def comp_def)

lemma release_row_fields:
  assumes "m \<in> set cur"
  shows "release_row (month_counts prev) (m, int (count_list cur m)) =
     \<lparr>month = m,
      current_count = int (count_list cur m),
      previous_count = int (count_list prev m),
      count_difference = int (count_list cur m) - int (count_list prev m),
      percentage_change =
        (if count_list prev m = 0 then None
         else Some (sql_round1 (real_of_int (int (count_list cur m) - int (count_list prev m))
                      / real_of_int (int (count_list prev m)) * 100)))\<rparr>"
proof (cases "m \<in> set prev")
  case True
  then have "count_list prev m \<noteq> 0" by (simp add: count_list_0_iff)
  then have "0 < count_list prev m" by simp
  then show ?thesis using True by (simp add: release_row_def map_of_month_counts Let_def)
next
  case False
  then have "count_list prev m = 0" by (simp add: count_list_0_iff)
  then show ?thesis using False by (simp add: release_row_def map_of_month_counts Let_def)
qed

lemma compare_monthly_releases_row:
  assumes "r \<in> set (compare_monthly_releases cur prev)"
  shows "month r \<in> set cur"
    and "r = release_row (month_counts prev) (month r, int (count_list cur (month r)))"
proof -
  from assms obtain m where m: "m \<in> set cur"
    and r: "r = release_row (month_counts prev) (m, int (count_list cur m))"
    by (auto simp: compare_monthly_releases_def month_counts_def)
  have "month r = m" unfolding r by (simp add: release_row_def Let_def)
  with m r show "month r \<in> set cur"
    and "r = release_row (month_counts prev) (month r, int (count_list cur (month r)))"
    by simp_all
qed

lemma compare_monthly_releases_fields:
  assumes "r \<in> set (compare_monthly_releases cur prev)"
  shows "current_count r = int (count_list cur (month r))"
    and "previous_count r = int (count_list prev (month r))"
    and "count_difference r = current_count r - previous_count r"
    and "percentage_change r =
        (if previous_count r = 0 then None
         else Some (sql_round1 (real_of_int (count_difference r)
                      / real_of_int (previous_count r) * 100)))"
proof -
  let ?m = "month r"
  have m: "?m \<in> set cur" using assms by (rule compare_monthly_releases_row)
  have "r = release_row (month_counts prev) (?m, int (count_list cur ?m))"
    using assms by (rule compare_monthly_releases_row)
  then have r: "r = \<lparr>month = ?m,
      current_count = int (count_list cur ?m),
      previous_count = int (count_list prev ?m),
      count_difference = int (count_list cur ?m) - int (count_list prev ?m),
      percentage_change =
        (if count_list prev ?m = 0 then None
         else Some (sql_round1 (real_of_int (int (count_list cur ?m) - int (count_list prev ?m))
                      / real_of_int (int (count_list prev ?m)) * 100)))\<rparr>"
    using release_row_fields [OF m, of prev] by simp
  show c: "current_count r = int (count_list cur ?m)" by (subst r) simp
  show p: "previous_count r = int (count_list prev ?m)" by (subst r) simp
  show d: "count_difference r = current_count r - previous_count r"
    unfolding c p by (subst r) simp
  have "percentage_change r = (if count_list prev ?m = 0 then None
         else Some (sql_round1 (real_of_int (int (count_list cur ?m) - int (count_list prev ?m))
                      / real_of_int (int (count_list prev ?m)) * 100)))"
    by (subst r) simp
  then show "percentage_change r =
        (if previous_count r = 0 then None
         else Some (sql_round1 (real_of_int (count_difference r)
                      / real_of_int (previous_count r) * 100)))"
    unfolding d c p by simp
qed


lemma pivot_cell_absent:
  assumes "(i, c) \<notin> set (map (\<lambda>(i, c, v). (i, c)) T)"
  shows "pivot_cell T i c = NaN"
proof -
  let ?kv = "map (\<lambda>(i', c', v). ((i', c'), v)) T"
  have e: "map fst ?kv = map (\<lambda>(i, c, v). (i, c)) T" by (induction T) auto
  have "fst ` set ?kv = set (map (\<lambda>(i, c, v). (i, c)) T)"
    using e by (metis set_map)
  then have "(i, c) \<notin> fst ` set ?kv" using assms by blast
  then have "map_of ?kv (i, c) = None" by (simp add: map_of_eq_None_iff)
  then show ?thesis by (simp add: pivot_cell_def)
qed

lemma row_cell_map:
  "c \<in> set cols \<Longrightarrow> row_cell cols (map f cols) c = f c"
  by (simp add: row_cell_def map_of_zip_map)

lemma frame_column_pivot:
  assumes "pivot T = Inr pv" and "c \<in> set (columns pv)"
  shows "frame_column pv c = Inr (map (\<lambda>i. pivot_cell T i c) (frame_index pv))"
proof -
  have r: "rows pv = map (\<lambda>i. (i, map (pivot_cell T i) (columns pv))) (frame_index pv)"
    using assms(1)
    by (auto simp: pivot_def frame_index_def Let_def comp_def split: if_splits)
  have "map (\<lambda>r. row_cell (columns pv) (snd r) c) (rows pv)
      = map (\<lambda>i. pivot_cell T i c) (frame_index pv)"
    by (subst r) (simp add: comp_def row_cell_map [OF assms(2)])
  then show ?thesis using assms(2) by (simp add: frame_column_def)
qed

lemma zip_map2_same:
  "zip xs (map2 g (map f xs) (map h xs)) = map (\<lambda>x. (x, g (f x) (h x))) xs"
  by (induction xs) simp_all

lemma yoy_change_Inr:
  assumes "yoy_change df_total y = Inr out"
  defines "T \<equiv> map (\<lambda>r. (price_band r, vol_year r, real_of_int (transaction_count r)))
                 (filter (\<lambda>r. vol_year r \<in> {y, y - 1}) df_total)"
  shows "distinct (map (\<lambda>(i, c, v). (i, c)) T)"
    and "out = map (\<lambda>b. (b, fround1 (fmul (fdiv (fsub (pivot_cell T b y) (pivot_cell T b (y - 1)))
                                 (pivot_cell T b (y - 1))) (Num 100))))
                 (sort (remdups (map (\<lambda>(i, c, v). i) T)))"
proof -
  from assms(1) obtain pv where pv: "pivot T = Inr pv"
    by (auto simp: yoy_change_def T_def Let_def split: sum.splits)
  from assms(1) pv obtain cur where cur: "frame_column pv y = Inr cur"
    by (auto simp: yoy_change_def T_def Let_def split: sum.splits)
  from assms(1) pv cur obtain prev where prev: "frame_column pv (y - 1) = Inr prev"
    by (auto simp: yoy_change_def T_def Let_def split: sum.splits)
  have out: "out = zip (frame_index pv)
      (map2 (\<lambda>c p. fround1 (fmul (fdiv (fsub c p) p) (Num 100))) cur prev)"
    using assms(1) pv cur prev by (simp add: yoy_change_def T_def Let_def)
  have cy: "y \<in> set (columns pv)" using cur by (auto simp: frame_column_def split: if_splits)
  have cp: "y - 1 \<in> set (columns pv)" using prev by (auto simp: frame_column_def split: if_splits)
  have cur': "cur = map (\<lambda>i. pivot_cell T i y) (frame_index pv)"
    using frame_column_pivot [OF pv cy] cur by simp
  have prev': "prev = map (\<lambda>i. pivot_cell T i (y - 1)) (frame_index pv)"
    using frame_column_pivot [OF pv cp] prev by simp
  show "distinct (map (\<lambda>(i, c, v). (i, c)) T)" using pv by (rule pivot_Inr(3))
  have idx: "frame_index pv = sort (remdups (map (\<lambda>(i, c, v). i) T))"
    using pv by (rule pivot_Inr(2))
  show "out = map (\<lambda>b. (b, fround1 (fmul (fdiv (fsub (pivot_cell T b y) (pivot_cell T b (y - 1)))
                                 (pivot_cell T b (y - 1))) (Num 100))))
                 (sort (remdups (map (\<lambda>(i, c, v). i) T)))"
    unfolding out cur' prev' idx by (rule zip_map2_same)
qed

lemma fsub_NaN_right: "fsub v NaN = NaN"
  by (cases v) simp_all

lemma yoy_cell_missing:
  "c = NaN \<or> p = NaN \<Longrightarrow> fround1 (fmul (fdiv (fsub c p) p) (Num 100)) = NaN"
  by (auto simp: fsub_NaN_right fdiv_NaN_right)

lemma yoy_cell_num:
  "b \<noteq> 0 \<Longrightarrow> fround1 (fmul (fdiv (fsub (Num a) (Num b)) (Num b)) (Num 100))
     = Num (np_round1 ((a - b) / b * 100))"
  by simp


lemma yoy_keys:
  "set (map (\<lambda>(i, c, v). (i, c))
          (map (\<lambda>r. (price_band r, vol_year r, real_of_int (transaction_count r)))
             (filter (\<lambda>r. vol_year r \<in> {y, y - 1}) df_total)))
     = (\<lambda>r. (price_band r, vol_year r)) ` {r \<in> set df_total. vol_year r = y \<or> vol_year r = y - 1}"
  by (auto simp: image_iff)

lemma yoy_bands:
  "map (\<lambda>(i, c, v). i)
     (map (\<lambda>r. (price_band r, vol_year r, real_of_int (transaction_count r))) rs)
     = map price_band rs"
  by (simp add: comp_def)

lemma yoy_key_absent:
  assumes "band \<notin> price_band ` {r \<in> set df_total. vol_year r = z}"
  shows "(band, z) \<notin> (\<lambda>r. (price_band r, vol_year r)) ` {r \<in> set df_total. P r}"
proof
  assume "(band, z) \<in> (\<lambda>r. (price_band r, vol_year r)) ` {r \<in> set df_total. P r}"
  then obtain r where "r \<in> set df_total" and "price_band r = band" and "vol_year r = z"
    by auto
  then have "band \<in> price_band ` {r \<in> set df_total. vol_year r = z}" by force
  with assms show False by simp
qed


text \<open>
  Claim C6, as the code has it. The monthly comparison has one row for each month of the
  current release and no other, with the previous count of an absent month taken as 0 and
  the difference current minus previous. The year-over-year table has one row for each
  band that has a count in either of the two years, and a band without a count in the
  selected year gets \<open>NaN\<close>, not the change down to zero.
\<close>

theorem period_deltas_emitted:
  "map month (compare_monthly_releases cur prev) = sort (remdups cur)
   \<and> (\<forall>r\<in>set (compare_monthly_releases cur prev).
        current_count r = int (count_list cur (month r))
        \<and> previous_count r = int (count_list prev (month r))
        \<and> count_difference r = current_count r - previous_count r)
   \<and> (yoy_change df_total y = Inr out \<longrightarrow>
        map fst out
          = sort (remdups (map price_band (filter (\<lambda>r. vol_year r \<in> {y, y - 1}) df_total)))
        \<and> (\<forall>band\<in>set (map fst out).
              band \<notin> price_band ` {r \<in> set df_total. vol_year r = y} \<longrightarrow> (band, NaN) \<in> set out))"
proof (intro conjI ballI impI)
  show "map month (compare_monthly_releases cur prev) = sort (remdups cur)"
    by (rule months_compare_monthly_releases)
next
  fix r assume r: "r \<in> set (compare_monthly_releases cur prev)"
  show "current_count r = int (count_list cur (month r))"
    using r by (rule compare_monthly_releases_fields(1))
  show "previous_count r = int (count_list prev (month r))"
    using r by (rule compare_monthly_releases_fields(2))
  show "count_difference r = current_count r - previous_count r"
    using r by (rule compare_monthly_releases_fields(3))
next
  let ?F = "filter (\<lambda>r. vol_year r \<in> {y, y - 1}) df_total"
  let ?T = "map (\<lambda>r. (price_band r, vol_year r, real_of_int (transaction_count r))) ?F"
  let ?g = "\<lambda>b. fround1 (fmul (fdiv (fsub (pivot_cell ?T b y) (pivot_cell ?T b (y - 1)))
                                 (pivot_cell ?T b (y - 1))) (Num 100))"
  assume ok: "yoy_change df_total y = Inr out"
  have out: "out = map (\<lambda>b. (b, ?g b)) (sort (remdups (map (\<lambda>(i, c, v). i) ?T)))"
    using ok by (rule yoy_change_Inr(2))
  have bands: "map (\<lambda>(i, c, v). i) ?T = map price_band ?F" by (rule yoy_bands)
  show "map fst out = sort (remdups (map price_band ?F))"
    unfolding out bands by (simp add: comp_def)
  {
    fix band
    assume b: "band \<in> set (map fst out)"
      and miss: "band \<notin> price_band ` {r \<in> set df_total. vol_year r = y}"
    have "(band, y) \<notin> set (map (\<lambda>(i, c, v). (i, c)) ?T)"
      using miss unfolding yoy_keys by (rule yoy_key_absent)
    then have "pivot_cell ?T band y = NaN" by (rule pivot_cell_absent)
    then have "?g band = NaN" by (simp add: yoy_cell_missing)
    moreover have "(band, ?g band) \<in> set out" using b unfolding out by auto
    ultimately show "(band, NaN) \<in> set out" by simp
  }
qed



text \<open>Months 3, 1, 3 against 1, 1, 2, and two bands with a count in one year each.\<close>

theorem period_deltas_emitted_witness:
  "map month (compare_monthly_releases [3, 1, 3] [1, 1, 2]) = [1, 3]
   \<and> map fst [(''0K-100K'', NaN), (''100K-200K'', NaN)] = [''0K-100K'', ''100K-200K'']
   \<and> (''0K-100K'', NaN) \<in> set [(''0K-100K'', NaN), (''100K-200K'', NaN :: fval)]"
proof -
  let ?df = "[\<lparr>vol_year = 2024, price_band = ''100K-200K'', transaction_count = 7\<rparr>,
      \<lparr>vol_year = 2023, price_band = ''0K-100K'', transaction_count = 5\<rparr>]"
  let ?out = "[(''0K-100K'', NaN), (''100K-200K'', NaN)]"
  have y: "yoy_change ?df 2024 = Inr ?out"
    by code_simp
  note inst = period_deltas_emitted [of "[3, 1, 3]" "[1, 1, 2]" ?df 2024 ?out]
  have s: "sort (remdups [3, 1, 3 :: int]) = [1, 3]" by code_simp
  have a: "map month (compare_monthly_releases [3, 1, 3] [1, 1, 2]) = [1, 3]"
    using inst s by simp
  have f: "sort (remdups (map price_band (filter (\<lambda>r. vol_year r \<in> {2024, 2024 - 1}) ?df)))
      = [''0K-100K'', ''100K-200K'']"
    by code_simp
  have b: "map fst ?out = [''0K-100K'', ''100K-200K'']"
    using inst y f by simp
  have "''0K-100K'' \<in> set (map fst ?out)"
    and "''0K-100K'' \<notin> price_band ` {r \<in> set ?df. vol_year r = 2024}"
    by auto
  then have c: "(''0K-100K'', NaN) \<in> set ?out"
    using inst y by blast
  from a b c show ?thesis by blast
qed

text \<open>
  Claim C6 as stated fails: month 2 is in the previous release only and gets no row, and
  the band \<open>0K-100K\<close>, absent in 2024, gets \<open>NaN\<close> instead of a drop to zero.
\<close>

theorem dropped_month_counterexample:
  "compare_monthly_releases [1] [1, 2, 2]
     = [\<lparr>month = 1, current_count = 1, previous_count = 1, count_difference = 0,
         percentage_change = Some 0\<rparr>]
   \<and> yoy_change
       [\<lparr>vol_year = 2023, price_band = ''0K-100K'', transaction_count = 5\<rparr>,
        \<lparr>vol_year = 2023, price_band = ''100K-200K'', transaction_count = 6\<rparr>,
        \<lparr>vol_year = 2024, price_band = ''100K-200K'', transaction_count = 9\<rparr>] 2024
     = Inr [(''0K-100K'', NaN), (''100K-200K'', Num 50)]"
  by code_simp

end
